theory Spec2Isabelle
  imports Main "HOL-Library.AList" "HOL-Library.Multiset"
begin

text \<open>
  FairVote: private elections on a document store. An organizer creates an election
  with candidates and a list of eligible e-mail addresses, voters cast a ballot of
  bounded size in one store transaction that also increments the running tally, the
  organizer closes the election and publishes the tally (recounting it from the ballots
  when the stored counts are missing), and a public page shows a published tally.

  The theory embeds the client code of \<^verbatim>\<open>src/app/page.tsx\<close>,
  \<^verbatim>\<open>src/app/elections/[id]/page.tsx\<close> and
  \<^verbatim>\<open>src/app/elections/[id]/results/page.tsx\<close> as functions on an explicit store and
  proves properties of the vote transaction, of election creation, of the
  recount-and-publish workflow and of the public page.
\<close>

section \<open>Strings\<close>

text \<open>
  The application's strings are modelled as \<^typ>\<open>string\<close> over ASCII. \<open>trim\<close> removes the
  ASCII white space and line terminators at both ends, \<open>toLowerCase\<close> maps \<open>A\<close>..\<open>Z\<close>
  to \<open>a\<close>..\<open>z\<close> and leaves every other character alone, and \<open>splitLines\<close> is
  \<^verbatim>\<open>input.split("\n")\<close>.
\<close>

definition isSpace :: "char \<Rightarrow> bool" where
  "isSpace c = (c \<in> set [CHR 0x09, CHR 0x0A, CHR 0x0B, CHR 0x0C, CHR 0x0D, CHR 0x20])"

definition trim :: "string \<Rightarrow> string" where
  "trim s = rev (dropWhile isSpace (rev (dropWhile isSpace s)))"

definition lowerChar :: "char \<Rightarrow> char" where
  "lowerChar c =
     (case map_of (zip ''ABCDEFGHIJKLMNOPQRSTUVWXYZ'' ''abcdefghijklmnopqrstuvwxyz'') c of
        None \<Rightarrow> c
      | Some l \<Rightarrow> l)"

definition toLowerCase :: "string \<Rightarrow> string" where
  "toLowerCase s = map lowerChar s"

fun splitLines :: "string \<Rightarrow> string list" where
  "splitLines [] = [[]]"
| "splitLines (c # cs) =
     (if c = CHR 0x0A then [] # splitLines cs
      else (case splitLines cs of
              [] \<Rightarrow> [[c]]
            | l # ls \<Rightarrow> (c # l) # ls))"

text \<open>\<^verbatim>\<open>const normalizeEmail = (value) => value.trim().toLowerCase()\<close>\<close>

definition normalizeEmail :: "string \<Rightarrow> string" where
  "normalizeEmail v = toLowerCase (trim v)"

text \<open>
  \<^verbatim>\<open>Array.from(new Set(xs))\<close>: a Set keeps the first occurrence of each element, in
  insertion order.
\<close>

definition setFromList :: "'a list \<Rightarrow> 'a list" where
  "setFromList xs = fold (\<lambda>x acc. if x \<in> set acc then acc else acc @ [x]) xs []"

text \<open>
  \<^verbatim>\<open>const uniqueList = (items) =>
     Array.from(new Set(items.map((item) => item.trim()).filter(Boolean)))\<close>
\<close>

definition uniqueList :: "string list \<Rightarrow> string list" where
  "uniqueList items = setFromList (filter (\<lambda>s. s \<noteq> []) (map trim items))"

section \<open>Documents and the store\<close>

text \<open>
  The three collections of the document store (\<open>elections\<close>, \<open>results\<close>, \<open>votes\<close>) are
  association lists from document id to document. A JavaScript object used as a map
  (\<open>counts\<close>) is an association list too; all writes go through \<^const>\<open>AList.update\<close>,
  which replaces the entry of an existing key in place and appends a new key.
  Fields that the source types as optional, or reads with \<open>??\<close>, are options. Numbers are
  integers (\<open>maxSelections\<close> comes from a number input, the counters from
  \<open>increment\<close> on integers). A value stored in the \<open>counts\<close> map is a number or,
  after a write to a nested field path, a map again. Server timestamps are left out: no
  modelled operation reads them.
\<close>

record user =
  uid :: string
  email :: "string option"

record election =
  e_id :: string
  title :: string
  createdByUid :: string
  createdByEmail :: string
  maxSelections :: int
  candidates :: "string list"
  eligibleEmails :: "string list"
  isClosed :: "bool option"
  resultsPublished :: "bool option"

datatype fieldValue = Number int | MapValue "(string \<times> fieldValue) list"

type_synonym countsMap = "(string \<times> fieldValue) list"

record tally =
  t_electionId :: string
  t_title :: string
  t_candidates :: "string list"
  counts :: "countsMap option"
  totalVotes :: "int option"
  isPublished :: "bool option"
  t_isClosed :: "bool option"
  t_createdByUid :: string

record ballot =
  b_electionId :: string
  voterUid :: string
  voterEmail :: string
  selections :: "string list option"

record db =
  elections :: "(string \<times> election) list"
  results :: "(string \<times> tally) list"
  votes :: "(string \<times> ballot) list"

datatype validation =
  TitleMissing | TooFewCandidates | MaxSelectionsOutOfRange | NoEligibleEmails
| VotingClosed | SelectionCountOutOfRange

datatype error =
  NotReady | ValidationError validation | AlreadyVoted | TallyMissing | StoreUnavailable
| InvalidFieldPath

text \<open>
  Every call to the store may fail (network, permissions); the source catches the
  exception and reports it. Which calls fail is a parameter \<open>fails\<close> of each operation.
\<close>

datatype io =
  AddElection | SetTally | VoteTransaction | GetTally | QueryVotes | UpdateElection
| MergeTally | GetPublicTally

definition noFaults :: "io \<Rightarrow> bool" where
  "noFaults step = False"

text \<open>\<open>counts ?? {}\<close> and \<open>totalVotes ?? 0\<close>.\<close>

definition countsOf :: "countsMap option \<Rightarrow> countsMap" where
  "countsOf co = (case co of None \<Rightarrow> [] | Some cs \<Rightarrow> cs)"

definition numberOf :: "int option \<Rightarrow> int" where
  "numberOf no = (case no of None \<Rightarrow> 0 | Some n \<Rightarrow> n)"

text \<open>
  The sum of the values of a \<open>counts\<close> map: of its numbers. A nested map is no count.
\<close>

fun numberValue :: "fieldValue \<Rightarrow> int" where
  "numberValue (Number v) = v"
| "numberValue (MapValue nested) = 0"

definition sumCounts :: "countsMap \<Rightarrow> int" where
  "sumCounts cs = sum_list (map (\<lambda>entry. numberValue (snd entry)) cs)"

section \<open>Election creation\<close>

text \<open>
  \<^verbatim>\<open>candidates.reduce((acc, candidate) => { acc[candidate] = 0; return acc; }, {})\<close>
\<close>

definition zeroCounts :: "string list \<Rightarrow> countsMap" where
  "zeroCounts cands = fold (\<lambda>candidate acc. AList.update candidate (Number 0) acc) cands []"

text \<open>
  \<open>handleCreateElection\<close> of \<^verbatim>\<open>src/app/page.tsx\<close>. \<open>newId\<close> is the id the store gives
  the added election document. The two writes are separate calls: when the second one
  fails the election document stays.
\<close>

definition handleCreateElection ::
  "(io \<Rightarrow> bool) \<Rightarrow> string \<Rightarrow> user option \<Rightarrow> string \<Rightarrow> int \<Rightarrow> string \<Rightarrow> string \<Rightarrow> db
     \<Rightarrow> db \<times> error option" where
  "handleCreateElection fails newId usr titleInput maxSel candidatesInput eligibleInput d =
     (case usr of
        None \<Rightarrow> (d, Some NotReady)
      | Some u \<Rightarrow>
          let cands = map trim (uniqueList (splitLines candidatesInput));
              emails = map normalizeEmail (uniqueList (splitLines eligibleInput))
          in if trim titleInput = [] then (d, Some (ValidationError TitleMissing))
             else if length cands < 2 then (d, Some (ValidationError TooFewCandidates))
             else if maxSel < 1 \<or> maxSel > int (length cands)
               then (d, Some (ValidationError MaxSelectionsOutOfRange))
             else if length emails = 0 then (d, Some (ValidationError NoEligibleEmails))
             else if fails AddElection then (d, Some StoreUnavailable)
             else
               let d1 = d\<lparr>elections := AList.update newId
                          \<lparr>e_id = newId, title = trim titleInput, createdByUid = uid u,
                           createdByEmail = (case email u of None \<Rightarrow> [] | Some m \<Rightarrow> m),
                           maxSelections = maxSel, candidates = cands,
                           eligibleEmails = emails, isClosed = Some False,
                           resultsPublished = Some False\<rparr> (elections d)\<rparr>
               in if fails SetTally then (d1, Some StoreUnavailable)
                  else (d1\<lparr>results := AList.update newId
                          \<lparr>t_electionId = newId, t_title = trim titleInput,
                           t_candidates = cands, counts = Some (zeroCounts cands),
                           totalVotes = Some 0, isPublished = Some False,
                           t_isClosed = Some False, t_createdByUid = uid u\<rparr> (results d1)\<rparr>,
                        None))"

section \<open>The vote transaction\<close>

text \<open>The ballot's document id, \<^verbatim>\<open>`${election.id}_${user.uid}`\<close>.\<close>

definition voteKey :: "string \<Rightarrow> string \<Rightarrow> string" where
  "voteKey electionId voter = electionId @ ''_'' @ voter"

text \<open>
  \<^verbatim>\<open>transaction.update(resultsRef, { [`counts.${candidate}`]: increment(1) })\<close>.
  The key of the update is a string, which the store reads as a dot-separated field
  path: it refuses a string with one of the characters \<open>~ * / [ ]\<close> and a path with an
  empty segment (\<open>Invalid field path\<close>), and takes every dot as a step into a nested
  map. So the name \<open>Ava\<close> gives the path \<open>counts\<close>, \<open>Ava\<close>; the name \<open>J. Smith\<close>
  gives \<open>counts\<close>, \<open>J\<close>, \<open> Smith\<close>; the name \<open>John Jr.\<close> gives no path.
\<close>

definition reservedChar :: "char \<Rightarrow> bool" where
  "reservedChar c = (c \<in> set ''~*/[]'')"

fun splitDots :: "string \<Rightarrow> string list" where
  "splitDots [] = [[]]"
| "splitDots (c # cs) =
     (if c = CHR ''.'' then [] # splitDots cs
      else (case splitDots cs of
              [] \<Rightarrow> [[c]]
            | s # ss \<Rightarrow> (c # s) # ss))"

definition fieldPath :: "string \<Rightarrow> string list option" where
  "fieldPath path =
     (if list_ex reservedChar path \<or> [] \<in> set (splitDots path) then None
      else Some (splitDots path))"

text \<open>
  \<open>increment(1)\<close> at a path inside a map: the last segment names the field that is
  incremented, or set to 1 when it is absent or no number; a segment before the last
  names a nested map, created (over whatever value stood there) when it is no map.
\<close>

fun incrementAt :: "string list \<Rightarrow> countsMap \<Rightarrow> countsMap" where
  "incrementAt [] m = m"
| "incrementAt [k] m =
     AList.update k (Number (case map_of m k of Some (Number v) \<Rightarrow> v + 1 | _ \<Rightarrow> 1)) m"
| "incrementAt (k # ks) m =
     AList.update k
       (MapValue (incrementAt ks (case map_of m k of Some (MapValue sub) \<Rightarrow> sub | _ \<Rightarrow> [])))
       m"

text \<open>
  One \<open>transaction.update\<close> of the loop over the selections, on the tally's \<open>counts\<close>
  field: the first segment of the path is \<open>counts\<close>, the rest leads into the map.
\<close>

definition incrementCount :: "string \<Rightarrow> countsMap option \<Rightarrow> error + countsMap option" where
  "incrementCount candidate co =
     (case fieldPath (''counts.'' @ candidate) of
        None \<Rightarrow> Inl InvalidFieldPath
      | Some path \<Rightarrow> Inr (Some (incrementAt (tl path) (countsOf co))))"

text \<open>\<^verbatim>\<open>selections.forEach((candidate) => { transaction.update(...) })\<close>\<close>

fun incrementCounts :: "string list \<Rightarrow> countsMap option \<Rightarrow> error + countsMap option" where
  "incrementCounts [] co = Inr co"
| "incrementCounts (candidate # rest) co =
     (case incrementCount candidate co of
        Inl err \<Rightarrow> Inl err
      | Inr co' \<Rightarrow> incrementCounts rest co')"

text \<open>\<^verbatim>\<open>totalVotes: increment(n)\<close>\<close>

definition incrementNumber :: "int \<Rightarrow> int option \<Rightarrow> int option" where
  "incrementNumber n no = Some (numberOf no + n)"

text \<open>
  The callback given to \<open>runTransaction\<close> in \<open>submitVote\<close>: a thrown error aborts the
  transaction with nothing written (\<open>Inl\<close>); otherwise all queued writes are committed
  together (\<open>Inr\<close>). An invalid field path is thrown by \<open>transaction.update\<close>, after
  the two reads; \<open>submitVote\<close> reports it with its general message.
\<close>

definition voteTransaction :: "election \<Rightarrow> user \<Rightarrow> string list \<Rightarrow> db \<Rightarrow> error + db" where
  "voteTransaction e u sels d =
     (let voteRef = voteKey (e_id e) (uid u) in
      case map_of (votes d) voteRef of
        Some voteSnap \<Rightarrow> Inl AlreadyVoted
      | None \<Rightarrow>
          (case map_of (results d) (e_id e) of
             None \<Rightarrow> Inl TallyMissing
           | Some t \<Rightarrow>
               (case incrementCounts sels (counts t) of
                  Inl err \<Rightarrow> Inl err
                | Inr co \<Rightarrow>
                    Inr (d\<lparr>results := AList.update (e_id e)
                              (t\<lparr>counts := co,
                                 totalVotes := incrementNumber (int (length sels)) (totalVotes t)\<rparr>)
                              (results d),
                            votes := AList.update voteRef
                              \<lparr>b_electionId = e_id e, voterUid = uid u,
                               voterEmail = (case email u of None \<Rightarrow> [] | Some m \<Rightarrow> m),
                               selections = Some sels\<rparr> (votes d)\<rparr>))))"

definition runTransaction :: "(io \<Rightarrow> bool) \<Rightarrow> (db \<Rightarrow> error + db) \<Rightarrow> db \<Rightarrow> error + db" where
  "runTransaction fails body d = (if fails VoteTransaction then Inl StoreUnavailable else body d)"

text \<open>
  \<open>submitVote\<close> of \<^verbatim>\<open>src/app/page.tsx\<close>; the one of
  \<^verbatim>\<open>src/app/elections/[id]/page.tsx\<close> has the same body, on the page's election.
  \<open>e\<close> is the client's copy of the election document.
\<close>

definition submitVote ::
  "(io \<Rightarrow> bool) \<Rightarrow> user option \<Rightarrow> election \<Rightarrow> string list \<Rightarrow> db \<Rightarrow> db \<times> error option" where
  "submitVote fails usr e sels d =
     (case usr of
        None \<Rightarrow> (d, Some NotReady)
      | Some u \<Rightarrow>
          if isClosed e = Some True then (d, Some (ValidationError VotingClosed))
          else if int (length sels) < 1 \<or> int (length sels) > maxSelections e
            then (d, Some (ValidationError SelectionCountOutOfRange))
          else (case runTransaction fails (voteTransaction e u sels) d of
                  Inl err \<Rightarrow> (d, Some err)
                | Inr d' \<Rightarrow> (d', None)))"

definition submitVoteDetails ::
  "(io \<Rightarrow> bool) \<Rightarrow> user option \<Rightarrow> election option \<Rightarrow> string list \<Rightarrow> db
     \<Rightarrow> db \<times> error option" where
  "submitVoteDetails fails usr eo sels d =
     (case eo of None \<Rightarrow> (d, Some NotReady) | Some e \<Rightarrow> submitVote fails usr e sels d)"

section \<open>Recount and publish\<close>

text \<open>
  \<^verbatim>\<open>if (typeof counts[candidate] === "number") { counts[candidate] += 1; }\<close>
\<close>

definition countKnown :: "string \<Rightarrow> countsMap \<Rightarrow> countsMap" where
  "countKnown candidate cs =
     (case map_of cs candidate of
        Some (Number v) \<Rightarrow> AList.update candidate (Number (v + 1)) cs
      | _ \<Rightarrow> cs)"

text \<open>The body of \<^verbatim>\<open>votesSnapshot.docs.forEach\<close> on one ballot document.\<close>

definition recountBallot :: "ballot \<Rightarrow> countsMap \<times> int \<Rightarrow> countsMap \<times> int" where
  "recountBallot b acc =
     (case selections b of
        None \<Rightarrow> acc
      | Some sels \<Rightarrow> (fold countKnown sels (fst acc), snd acc + int (length sels)))"

definition recount :: "string list \<Rightarrow> ballot list \<Rightarrow> countsMap \<times> int" where
  "recount cands docs = fold recountBallot docs (zeroCounts cands, 0)"

text \<open>\<^verbatim>\<open>query(collection(db, "votes"), where("electionId", "==", election.id))\<close>\<close>

definition queryVotes :: "db \<Rightarrow> string \<Rightarrow> ballot list" where
  "queryVotes d electionId = filter (\<lambda>b. b_electionId b = electionId) (map snd (votes d))"

text \<open>
  The fast path of \<open>closeAndPublish\<close>: the stored counts and total, when the tally
  document exists and its \<open>counts\<close> map has a key (\<open>needsRecount = false\<close>).
\<close>

definition trustedCounts :: "tally option \<Rightarrow> (countsMap \<times> int) option" where
  "trustedCounts resultsSnap =
     (case resultsSnap of
        None \<Rightarrow> None
      | Some t \<Rightarrow>
          (case counts t of
             None \<Rightarrow> None
           | Some cs \<Rightarrow> if length cs > 0 then Some (cs, numberOf (totalVotes t)) else None))"

text \<open>The counts and total that \<open>closeAndPublish\<close> writes: trusted, or recounted.\<close>

definition finalCounts :: "election \<Rightarrow> db \<Rightarrow> countsMap \<times> int" where
  "finalCounts e d =
     (case trustedCounts (map_of (results d) (e_id e)) of
        Some trusted \<Rightarrow> trusted
      | None \<Rightarrow> recount (candidates e) (queryVotes d (e_id e)))"

text \<open>
  The document given to the merging \<open>setDoc\<close>. It writes every modelled field of the
  tally; its \<open>counts\<close> are either the stored ones (fast path) or written over an empty
  or absent map (recount), so the merged map is the written one.
\<close>

definition publishedTally :: "election \<Rightarrow> countsMap \<times> int \<Rightarrow> tally" where
  "publishedTally e written =
     \<lparr>t_electionId = e_id e, t_title = title e, t_candidates = candidates e,
      counts = Some (fst written), totalVotes = Some (snd written), isPublished = Some True,
      t_isClosed = Some True, t_createdByUid = createdByUid e\<rparr>"

text \<open>
  \<open>closeAndPublish\<close> of \<^verbatim>\<open>src/app/elections/[id]/page.tsx\<close>: read the tally, scan the
  votes when a recount is needed, then two separate writes, the election's flags first
  and the tally second. \<open>updateDoc\<close> fails on a missing document.
\<close>

definition closeAndPublish ::
  "(io \<Rightarrow> bool) \<Rightarrow> election option \<Rightarrow> db \<Rightarrow> db \<times> error option" where
  "closeAndPublish fails eo d =
     (case eo of
        None \<Rightarrow> (d, Some NotReady)
      | Some e \<Rightarrow>
          if fails GetTally then (d, Some StoreUnavailable)
          else if trustedCounts (map_of (results d) (e_id e)) = None \<and> fails QueryVotes
            then (d, Some StoreUnavailable)
          else
            (case map_of (elections d) (e_id e) of
               None \<Rightarrow> (d, Some StoreUnavailable)
             | Some doc \<Rightarrow>
                 if fails UpdateElection then (d, Some StoreUnavailable)
                 else
                   let d1 = d\<lparr>elections := AList.update (e_id e)
                              (doc\<lparr>isClosed := Some True, resultsPublished := Some True\<rparr>)
                              (elections d)\<rparr>
                   in if fails MergeTally then (d1, Some StoreUnavailable)
                      else (d1\<lparr>results := AList.update (e_id e)
                                (publishedTally e (finalCounts e d)) (results d1)\<rparr>,
                            None)))"

section \<open>The public results page\<close>




section \<open>Notions used to state the properties\<close>

text \<open>The count of a candidate in a tally's \<open>counts\<close> field, 0 when it has no entry.\<close>

definition countOf :: "countsMap option \<Rightarrow> string \<Rightarrow> int" where
  "countOf co candidate =
     (case map_of (countsOf co) candidate of Some (Number v) \<Rightarrow> v | _ \<Rightarrow> 0)"

text \<open>The tally invariant \<open>totalVotes == sum(counts.values())\<close>.\<close>

definition tallyConsistent :: "tally \<Rightarrow> bool" where
  "tallyConsistent t = (numberOf (totalVotes t) = sumCounts (countsOf (counts t)))"

text \<open>
  A name that the store reads as the one-segment path it is meant to be: not empty,
  without a dot and without a reserved character.
\<close>

definition plainName :: "string \<Rightarrow> bool" where
  "plainName candidate = (fieldPath (''counts.'' @ candidate) = Some [''counts'', candidate])"

text \<open>
  The running tally of election \<open>e\<close> agrees with a recount from the stored ballots.
\<close>

definition recountAgrees :: "election \<Rightarrow> db \<Rightarrow> bool" where
  "recountAgrees e d =
     (case map_of (results d) (e_id e) of
        None \<Rightarrow> False
      | Some t \<Rightarrow>
          recount (candidates e) (queryVotes d (e_id e)) =
            (countsOf (counts t), numberOf (totalVotes t)))"

text \<open>
  A sequence of vote submissions on one election, every one of which has to succeed;
  \<open>None\<close> when one of them is rejected.
\<close>

fun castVotes ::
  "(io \<Rightarrow> bool) \<Rightarrow> election \<Rightarrow> (user \<times> string list) list \<Rightarrow> db \<Rightarrow> db option" where
  "castVotes fails e [] d = Some d"
| "castVotes fails e (vote # rest) d =
     (case submitVote fails (Some (fst vote)) e (snd vote) d of
        (d', None) \<Rightarrow> castVotes fails e rest d'
      | (d', Some err) \<Rightarrow> None)"

subsection \<open>The election of the specification's scenarios\<close>

definition organizer :: user where
  "organizer = \<lparr>uid = ''org'', email = Some ''o@x.com''\<rparr>"

definition voterA :: user where
  "voterA = \<lparr>uid = ''ua'', email = Some ''a@x.com''\<rparr>"

definition voterB :: user where
  "voterB = \<lparr>uid = ''ub'', email = Some ''b@x.com''\<rparr>"

definition emptyDb :: db where
  "emptyDb = \<lparr>elections = [], results = [], votes = []\<rparr>"

definition scenarioElection :: election where
  "scenarioElection =
     \<lparr>e_id = ''e1'', title = ''Lead'', createdByUid = ''org'', createdByEmail = ''o@x.com'',
      maxSelections = 2, candidates = [''Ava'', ''Noah'', ''Liam''],
      eligibleEmails = [''a@x.com'', ''b@x.com''], isClosed = Some False,
      resultsPublished = Some False\<rparr>"

definition scenarioTally :: tally where
  "scenarioTally =
     \<lparr>t_electionId = ''e1'', t_title = ''Lead'', t_candidates = [''Ava'', ''Noah'', ''Liam''],
      counts = Some [(''Ava'', Number 0), (''Noah'', Number 0), (''Liam'', Number 0)],
      totalVotes = Some 0,
      isPublished = Some False, t_isClosed = Some False, t_createdByUid = ''org''\<rparr>"

definition scenarioDb :: db where
  "scenarioDb =
     \<lparr>elections = [(''e1'', scenarioElection)], results = [(''e1'', scenarioTally)],
      votes = []\<rparr>"

definition ballotOf :: "user \<Rightarrow> string list \<Rightarrow> ballot" where
  "ballotOf u sels =
     \<lparr>b_electionId = ''e1'', voterUid = uid u,
      voterEmail = (case email u of None \<Rightarrow> [] | Some m \<Rightarrow> m), selections = Some sels\<rparr>"



subsection \<open>A second election, with dots in the candidates' names\<close>

text \<open>
  The store after voter B has voted for Ava in the first election, and after the
  organizer has then created a second election with the candidates \<open>J. Smith\<close>,
  \<open>John Jr.\<close> and \<open>Ann\<close>; and the store after voter A's vote for \<open>J. Smith\<close>.
\<close>

definition votedTally :: tally where
  "votedTally =
     scenarioTally\<lparr>counts := Some [(''Ava'', Number 1), (''Noah'', Number 0), (''Liam'', Number 0)],
       totalVotes := Some 1\<rparr>"

definition votedDb :: db where
  "votedDb =
     \<lparr>elections = [(''e1'', scenarioElection)], results = [(''e1'', votedTally)],
      votes = [(''e1_ub'', ballotOf voterB [''Ava''])]\<rparr>"

definition dottedElection :: election where
  "dottedElection =
     \<lparr>e_id = ''e2'', title = ''Board'', createdByUid = ''org'', createdByEmail = ''o@x.com'',
      maxSelections = 1, candidates = [''J. Smith'', ''John Jr.'', ''Ann''],
      eligibleEmails = [''a@x.com'', ''b@x.com''], isClosed = Some False,
      resultsPublished = Some False\<rparr>"

definition dottedTally :: tally where
  "dottedTally =
     \<lparr>t_electionId = ''e2'', t_title = ''Board'',
      t_candidates = [''J. Smith'', ''John Jr.'', ''Ann''],
      counts = Some [(''J. Smith'', Number 0), (''John Jr.'', Number 0), (''Ann'', Number 0)],
      totalVotes = Some 0,
      isPublished = Some False, t_isClosed = Some False, t_createdByUid = ''org''\<rparr>"

definition twoElectionsDb :: db where
  "twoElectionsDb =
     \<lparr>elections = [(''e1'', scenarioElection), (''e2'', dottedElection)],
      results = [(''e1'', votedTally), (''e2'', dottedTally)],
      votes = [(''e1_ub'', ballotOf voterB [''Ava''])]\<rparr>"

definition dottedBallot :: ballot where
  "dottedBallot =
     \<lparr>b_electionId = ''e2'', voterUid = ''ua'', voterEmail = ''a@x.com'',
      selections = Some [''J. Smith'']\<rparr>"

definition dottedVotedTally :: tally where
  "dottedVotedTally =
     dottedTally\<lparr>counts := Some [(''J. Smith'', Number 0), (''John Jr.'', Number 0),
         (''Ann'', Number 0), (''J'', MapValue [('' Smith'', Number 1)])],
       totalVotes := Some 1\<rparr>"

definition dottedVotedDb :: db where
  "dottedVotedDb =
     \<lparr>elections = [(''e1'', scenarioElection), (''e2'', dottedElection)],
      results = [(''e1'', votedTally), (''e2'', dottedVotedTally)],
      votes = [(''e1_ub'', ballotOf voterB [''Ava'']), (''e2_ua'', dottedBallot)]\<rparr>"

section \<open>Association lists\<close>

lemma update_absent_append:
  "map_of al k = None \<Longrightarrow> AList.update k v al = al @ [(k, v)]"
  by (induction al) (auto split: if_splits)

lemma length_update_present:
  "map_of al k = Some w \<Longrightarrow> length (AList.update k v al) = length al"
  by (induction al) (auto split: if_splits)

lemma sum_list_all_zero: "\<forall>x \<in> set xs. f x = (0::int) \<Longrightarrow> sum_list (map f xs) = 0"
  by (induction xs) auto

section \<open>The scenarios\<close>

lemma scenario_created:
  "handleCreateElection noFaults ''e1'' (Some organizer) '' Lead '' 2
     ''Ava\<newline>Noah\<newline> Liam\<newline>Ava\<newline>'' ''a@x.com\<newline>b@x.com'' emptyDb = (scenarioDb, None)"
  by (simp add: handleCreateElection_def noFaults_def organizer_def emptyDb_def scenarioDb_def
      scenarioElection_def scenarioTally_def uniqueList_def setFromList_def trim_def
      isSpace_def normalizeEmail_def toLowerCase_def lowerChar_def zeroCounts_def Let_def)

lemma fieldPath_examples:
  "fieldPath ''counts.Ava'' = Some [''counts'', ''Ava''] \<and>
   fieldPath ''counts.Noah'' = Some [''counts'', ''Noah''] \<and>
   fieldPath ''counts.Liam'' = Some [''counts'', ''Liam''] \<and>
   fieldPath ''counts.Zed'' = Some [''counts'', ''Zed''] \<and>
   fieldPath ''counts.J. Smith'' = Some [''counts'', ''J'', '' Smith''] \<and>
   fieldPath ''counts.John Jr.'' = None \<and>
   fieldPath ''counts.A/B'' = None"
  by (simp add: fieldPath_def reservedChar_def)

lemma scenario_voted:
  "submitVote noFaults (Some voterB) scenarioElection [''Ava''] scenarioDb = (votedDb, None)"
  using fieldPath_examples
  by (simp add: submitVote_def runTransaction_def voteTransaction_def noFaults_def
      scenarioElection_def voterB_def scenarioDb_def scenarioTally_def votedDb_def
      votedTally_def ballotOf_def voteKey_def incrementCount_def countsOf_def
      incrementNumber_def numberOf_def)

lemma dotted_created:
  "handleCreateElection noFaults ''e2'' (Some organizer) ''Board'' 1
     ''J. Smith\<newline>John Jr.\<newline>Ann'' ''a@x.com\<newline>b@x.com'' votedDb = (twoElectionsDb, None)"
  by (simp add: handleCreateElection_def noFaults_def organizer_def votedDb_def
      twoElectionsDb_def dottedElection_def dottedTally_def uniqueList_def setFromList_def
      trim_def isSpace_def normalizeEmail_def toLowerCase_def lowerChar_def zeroCounts_def
      Let_def)

section \<open>Candidate names with a dot\<close>

lemma dotted_vote:
  "voteTransaction dottedElection voterA [''J. Smith''] twoElectionsDb = Inr dottedVotedDb"
  using fieldPath_examples
  by (simp add: voteTransaction_def dottedElection_def voterA_def twoElectionsDb_def
      dottedVotedDb_def dottedTally_def dottedVotedTally_def dottedBallot_def voteKey_def
      incrementCount_def countsOf_def incrementNumber_def numberOf_def)

lemma dotted_vote_refused:
  "voteTransaction dottedElection voterA [''John Jr.''] twoElectionsDb = Inl InvalidFieldPath"
  using fieldPath_examples
  by (simp add: voteTransaction_def dottedElection_def voterA_def twoElectionsDb_def
      dottedTally_def voteKey_def incrementCount_def)

lemma dotted_submitVote:
  "submitVote noFaults (Some voterA) dottedElection [''J. Smith''] twoElectionsDb =
     (dottedVotedDb, None)"
proof -
  have "isClosed dottedElection \<noteq> Some True" and "maxSelections dottedElection = 1"
    by (simp_all add: dottedElection_def)
  then show ?thesis
    by (simp add: submitVote_def runTransaction_def noFaults_def dotted_vote)
qed

text \<open>
  C1 at the candidates \<open>J. Smith\<close> and \<open>John Jr.\<close> of the second election. Voter A has
  no ballot there and the tally exists. The vote for \<open>J. Smith\<close> commits, with the
  ballot and \<open>totalVotes = 1\<close>, but the count of \<open>J. Smith\<close> stays 0: the increment
  went to the field \<open> Smith\<close> of a new nested map \<open>J\<close>. The vote for \<open>John Jr.\<close> fails
  with an invalid field path, neither \<open>AlreadyVoted\<close> nor \<open>TallyMissing\<close>, and writes
  nothing.
\<close>

theorem vote_for_dotted_name_not_counted:
  "map_of (votes twoElectionsDb) (voteKey (e_id dottedElection) (uid voterA)) = None \<and>
   map_of (results twoElectionsDb) (e_id dottedElection) = Some dottedTally \<and>
   voteTransaction dottedElection voterA [''J. Smith''] twoElectionsDb = Inr dottedVotedDb \<and>
   map_of (votes dottedVotedDb) ''e2_ua'' = Some dottedBallot \<and>
   map_of (results dottedVotedDb) (e_id dottedElection) = Some dottedVotedTally \<and>
   totalVotes dottedVotedTally = Some 1 \<and>
   countOf (counts dottedTally) ''J. Smith'' = 0 \<and>
   countOf (counts dottedVotedTally) ''J. Smith'' = 0 \<and>
   map_of (countsOf (counts dottedVotedTally)) ''J'' = Some (MapValue [('' Smith'', Number 1)]) \<and>
   voteTransaction dottedElection voterA [''John Jr.''] twoElectionsDb = Inl InvalidFieldPath \<and>
   submitVote noFaults (Some voterA) dottedElection [''John Jr.''] twoElectionsDb =
     (twoElectionsDb, Some InvalidFieldPath)"
proof -
  have "isClosed dottedElection \<noteq> Some True" and "maxSelections dottedElection = 1"
    by (simp_all add: dottedElection_def)
  then have "submitVote noFaults (Some voterA) dottedElection [''John Jr.''] twoElectionsDb =
     (twoElectionsDb, Some InvalidFieldPath)"
    by (simp add: submitVote_def runTransaction_def noFaults_def dotted_vote_refused)
  moreover have "map_of (votes twoElectionsDb) (voteKey (e_id dottedElection) (uid voterA)) = None"
    and "map_of (results twoElectionsDb) (e_id dottedElection) = Some dottedTally"
    and "map_of (votes dottedVotedDb) ''e2_ua'' = Some dottedBallot"
    and "map_of (results dottedVotedDb) (e_id dottedElection) = Some dottedVotedTally"
    by (simp_all add: twoElectionsDb_def dottedVotedDb_def dottedElection_def voterA_def
        voteKey_def)
  moreover have "totalVotes dottedVotedTally = Some 1"
    and "countOf (counts dottedTally) ''J. Smith'' = 0"
    and "countOf (counts dottedVotedTally) ''J. Smith'' = 0"
    and "map_of (countsOf (counts dottedVotedTally)) ''J'' = Some (MapValue [('' Smith'', Number 1)])"
    by (simp_all add: dottedVotedTally_def dottedTally_def countOf_def countsOf_def)
  ultimately show ?thesis
    using dotted_vote dotted_vote_refused by (intro conjI)
qed

text \<open>
  C2 at the same vote. The second election is created by \<open>handleCreateElection\<close> with a
  consistent tally; voter A's vote for the candidate \<open>J. Smith\<close> succeeds; after it
  \<open>totalVotes\<close> is 1 and the values of \<open>counts\<close> are 0, 0, 0 and a nested map: the
  tally is not consistent.
\<close>

theorem dotted_vote_breaks_tally_consistency:
  "handleCreateElection noFaults ''e2'' (Some organizer) ''Board'' 1
     ''J. Smith\<newline>John Jr.\<newline>Ann'' ''a@x.com\<newline>b@x.com'' votedDb = (twoElectionsDb, None) \<and>
   map_of (results twoElectionsDb) ''e2'' = Some dottedTally \<and>
   tallyConsistent dottedTally \<and>
   submitVote noFaults (Some voterA) dottedElection [''J. Smith''] twoElectionsDb =
     (dottedVotedDb, None) \<and>
   map_of (results dottedVotedDb) ''e2'' = Some dottedVotedTally \<and>
   counts dottedVotedTally =
     Some [(''J. Smith'', Number 0), (''John Jr.'', Number 0), (''Ann'', Number 0),
           (''J'', MapValue [('' Smith'', Number 1)])] \<and>
   totalVotes dottedVotedTally = Some 1 \<and>
   sumCounts (countsOf (counts dottedVotedTally)) = 0 \<and>
   \<not> tallyConsistent dottedVotedTally"
proof -
  have "map_of (results twoElectionsDb) ''e2'' = Some dottedTally"
    and "map_of (results dottedVotedDb) ''e2'' = Some dottedVotedTally"
    by (simp_all add: twoElectionsDb_def dottedVotedDb_def)
  moreover have "tallyConsistent dottedTally"
    by (simp add: tallyConsistent_def dottedTally_def numberOf_def countsOf_def sumCounts_def)
  moreover have "counts dottedVotedTally =
     Some [(''J. Smith'', Number 0), (''John Jr.'', Number 0), (''Ann'', Number 0),
           (''J'', MapValue [('' Smith'', Number 1)])]"
    and "totalVotes dottedVotedTally = Some 1"
    and "sumCounts (countsOf (counts dottedVotedTally)) = 0"
    and "\<not> tallyConsistent dottedVotedTally"
    by (simp_all add: tallyConsistent_def dottedVotedTally_def numberOf_def countsOf_def
        sumCounts_def)
  ultimately show ?thesis
    using dotted_created dotted_submitVote by (intro conjI)
qed

text \<open>
  C6 at the same vote: one successful vote transaction, for a candidate of the
  election. The recount from the stored ballots of the election gives \<open>J. Smith\<close> one
  vote; the running tally has \<open>J. Smith\<close> at 0 and a nested map \<open>J\<close>. The two
  \<open>counts\<close> maps differ.
\<close>

theorem dotted_vote_recount_differs:
  "castVotes noFaults dottedElection [(voterA, [''J. Smith''])] twoElectionsDb =
     Some dottedVotedDb \<and>
   set [''J. Smith''] \<subseteq> set (candidates dottedElection) \<and>
   queryVotes dottedVotedDb (e_id dottedElection) = [dottedBallot] \<and>
   recount (candidates dottedElection) (queryVotes dottedVotedDb (e_id dottedElection)) =
     ([(''J. Smith'', Number 1), (''John Jr.'', Number 0), (''Ann'', Number 0)], 1) \<and>
   map_of (results dottedVotedDb) (e_id dottedElection) = Some dottedVotedTally \<and>
   countsOf (counts dottedVotedTally) =
     [(''J. Smith'', Number 0), (''John Jr.'', Number 0), (''Ann'', Number 0),
      (''J'', MapValue [('' Smith'', Number 1)])] \<and>
   numberOf (totalVotes dottedVotedTally) = 1 \<and>
   \<not> recountAgrees dottedElection dottedVotedDb"
proof -
  have cast: "castVotes noFaults dottedElection [(voterA, [''J. Smith''])] twoElectionsDb =
     Some dottedVotedDb"
    by (simp add: dotted_submitVote)
  have drawn: "set [''J. Smith''] \<subseteq> set (candidates dottedElection)"
    by (simp add: dottedElection_def)
  have scan: "queryVotes dottedVotedDb (e_id dottedElection) = [dottedBallot]"
    by (simp add: queryVotes_def dottedVotedDb_def dottedElection_def dottedBallot_def
        ballotOf_def)
  have again: "recount (candidates dottedElection) [dottedBallot] =
     ([(''J. Smith'', Number 1), (''John Jr.'', Number 0), (''Ann'', Number 0)], 1)"
    by (simp add: recount_def recountBallot_def countKnown_def zeroCounts_def
        dottedElection_def dottedBallot_def)
  have tally: "map_of (results dottedVotedDb) (e_id dottedElection) = Some dottedVotedTally"
    by (simp add: dottedVotedDb_def dottedElection_def)
  have running: "countsOf (counts dottedVotedTally) =
     [(''J. Smith'', Number 0), (''John Jr.'', Number 0), (''Ann'', Number 0),
      (''J'', MapValue [('' Smith'', Number 1)])]"
    "numberOf (totalVotes dottedVotedTally) = 1"
    by (simp_all add: dottedVotedTally_def countsOf_def numberOf_def)
  have "\<not> recountAgrees dottedElection dottedVotedDb"
    by (simp add: recountAgrees_def tally scan again running)
  with cast drawn scan again tally running show ?thesis
    by (simp only: simp_thms)
qed

section \<open>Candidate names without a dot\<close>

lemma splitDots_no_dot: "CHR ''.'' \<notin> set c \<Longrightarrow> splitDots c = [c]"
  by (induction c) auto

lemma splitDots_nonempty: "splitDots c \<noteq> []"
  by (induction c) (auto split: list.splits)

lemma splitDots_dot: "CHR ''.'' \<in> set c \<Longrightarrow> 2 \<le> length (splitDots c)"
proof (induction c)
  case Nil
  then show ?case by simp
next
  case (Cons a c)
  then show ?case
    using splitDots_nonempty [of c] by (cases "splitDots c") (auto split: list.splits)
qed

lemma splitDots_counts: "splitDots (''counts.'' @ c) = ''counts'' # splitDots c"
  by simp

text \<open>
  A name is read as the one segment it is meant to be exactly when it is not empty and
  has no dot and no reserved character.
\<close>

lemma plainName_iff:
  "plainName c \<longleftrightarrow> c \<noteq> [] \<and> CHR ''.'' \<notin> set c \<and> \<not> list_ex reservedChar c"
proof
  assume plain: "plainName c"
  then have ok: "\<not> list_ex reservedChar (''counts.'' @ c)" "[] \<notin> set (splitDots (''counts.'' @ c))"
    and segs: "splitDots (''counts.'' @ c) = [''counts'', c]"
    by (auto simp: plainName_def fieldPath_def split: if_splits)
  from segs have one: "splitDots c = [c]"
    by (simp only: splitDots_counts) simp
  have "CHR ''.'' \<notin> set c"
  proof
    assume "CHR ''.'' \<in> set c"
    then have "2 \<le> length (splitDots c)"
      by (rule splitDots_dot)
    with one show False
      by simp
  qed
  moreover from ok(2) one have "c \<noteq> []"
    by (simp only: splitDots_counts) auto
  moreover from ok(1) have "\<not> list_ex reservedChar c"
    by (simp add: reservedChar_def)
  ultimately show "c \<noteq> [] \<and> CHR ''.'' \<notin> set c \<and> \<not> list_ex reservedChar c"
    by simp
next
  assume "c \<noteq> [] \<and> CHR ''.'' \<notin> set c \<and> \<not> list_ex reservedChar c"
  then have "splitDots c = [c]" and "c \<noteq> []" and "\<not> list_ex reservedChar c"
    by (simp_all add: splitDots_no_dot)
  then have "splitDots (''counts.'' @ c) = [''counts'', c]"
    and "\<not> list_ex reservedChar (''counts.'' @ c)"
    by (simp_all add: reservedChar_def)
  with \<open>c \<noteq> []\<close> show "plainName c"
    by (simp add: plainName_def fieldPath_def)
qed

lemma incrementCount_plain:
  "plainName c \<Longrightarrow> incrementCount c co = Inr (Some (incrementAt [c] (countsOf co)))"
  by (simp add: plainName_def incrementCount_def)

lemma sum_values_update:
  "sum_list (map (\<lambda>entry. numberValue (snd entry)) (AList.update k v al)) =
     sum_list (map (\<lambda>entry. numberValue (snd entry)) al) -
       (case map_of al k of None \<Rightarrow> 0 | Some w \<Rightarrow> numberValue w) + numberValue v"
  by (induction al) auto

lemma countOf_incrementAt:
  "countOf (Some (incrementAt [c] (countsOf co))) x = countOf co x + (if x = c then 1 else 0)"
  by (simp add: countOf_def countsOf_def update_conv' split: option.splits fieldValue.splits)

lemma sumCounts_incrementAt:
  "sumCounts (incrementAt [c] cs) = sumCounts cs + 1"
  by (simp add: sumCounts_def sum_values_update split: option.splits fieldValue.splits)

lemma incrementCounts_plain:
  assumes "\<forall>c \<in> set sels. plainName c"
  shows "\<exists>co'. incrementCounts sels co = Inr co' \<and>
           (\<forall>x. countOf co' x = countOf co x + int (count_list sels x)) \<and>
           sumCounts (countsOf co') = sumCounts (countsOf co) + int (length sels)"
  using assms
proof (induction sels arbitrary: co)
  case Nil
  show ?case by simp
next
  case (Cons c sels)
  let ?co = "Some (incrementAt [c] (countsOf co))"
  from Cons.prems have first: "incrementCount c co = Inr ?co"
    by (simp add: incrementCount_plain)
  from Cons.prems have "\<forall>c \<in> set sels. plainName c"
    by simp
  from Cons.IH [OF this, of ?co] obtain co'
    where rest: "incrementCounts sels ?co = Inr co'"
      and each: "\<forall>x. countOf co' x = countOf ?co x + int (count_list sels x)"
      and total: "sumCounts (countsOf co') = sumCounts (countsOf ?co) + int (length sels)"
    by blast
  have "incrementCounts (c # sels) co = Inr co'"
    using rest by (simp add: first del: incrementAt.simps)
  moreover have "\<forall>x. countOf co' x = countOf co x + int (count_list (c # sels) x)"
    using each by (simp add: countOf_incrementAt del: incrementAt.simps)
  moreover have "sumCounts (countsOf co') = sumCounts (countsOf co) + int (length (c # sels))"
    using total by (simp add: sumCounts_incrementAt countsOf_def del: incrementAt.simps)
  ultimately show ?case
    by blast
qed

text \<open>
  For selections without a dot or a reserved character the transaction fails with
  \<open>AlreadyVoted\<close> when a ballot exists under the key of (election, voter); otherwise
  with \<open>TallyMissing\<close> when the election has no tally; otherwise it commits, the count
  of every name grows by the number of times the selections list it, \<open>totalVotes\<close>
  grows by the size of the selections, nothing else of the tally changes, and exactly
  one ballot, under that key, is added to the votes.
\<close>

lemma vote_transaction_plain_names:
  assumes "\<forall>c \<in> set sels. plainName c"
  shows "(map_of (votes d) (voteKey (e_id e) (uid u)) \<noteq> None \<longrightarrow>
      voteTransaction e u sels d = Inl AlreadyVoted) \<and>
   (map_of (votes d) (voteKey (e_id e) (uid u)) = None \<and> map_of (results d) (e_id e) = None \<longrightarrow>
      voteTransaction e u sels d = Inl TallyMissing) \<and>
   (map_of (votes d) (voteKey (e_id e) (uid u)) = None \<and> map_of (results d) (e_id e) = Some t \<longrightarrow>
      (\<exists>d' t'. voteTransaction e u sels d = Inr d' \<and>
         map_of (results d') = (map_of (results d))(e_id e \<mapsto> t') \<and>
         (\<forall>c. countOf (counts t') c = countOf (counts t) c + int (count_list sels c)) \<and>
         numberOf (totalVotes t') = numberOf (totalVotes t) + int (length sels) \<and>
         (tallyConsistent t \<longrightarrow> tallyConsistent t') \<and>
         t'\<lparr>counts := counts t, totalVotes := totalVotes t\<rparr> = t \<and>
         votes d' = votes d @ [(voteKey (e_id e) (uid u),
            \<lparr>b_electionId = e_id e, voterUid = uid u,
             voterEmail = (case email u of None \<Rightarrow> [] | Some m \<Rightarrow> m),
             selections = Some sels\<rparr>)] \<and>
         elections d' = elections d))"
proof (intro conjI impI)
  assume "map_of (votes d) (voteKey (e_id e) (uid u)) \<noteq> None"
  then show "voteTransaction e u sels d = Inl AlreadyVoted"
    by (auto simp: voteTransaction_def)
next
  assume "map_of (votes d) (voteKey (e_id e) (uid u)) = None \<and> map_of (results d) (e_id e) = None"
  then show "voteTransaction e u sels d = Inl TallyMissing"
    by (simp add: voteTransaction_def)
next
  assume pre: "map_of (votes d) (voteKey (e_id e) (uid u)) = None \<and>
      map_of (results d) (e_id e) = Some t"
  from incrementCounts_plain [OF assms, of "counts t"] obtain co'
    where inc: "incrementCounts sels (counts t) = Inr co'"
      and each: "\<forall>x. countOf co' x = countOf (counts t) x + int (count_list sels x)"
      and total: "sumCounts (countsOf co') = sumCounts (countsOf (counts t)) + int (length sels)"
    by blast
  let ?t' = "t\<lparr>counts := co', totalVotes := incrementNumber (int (length sels)) (totalVotes t)\<rparr>"
  let ?b = "\<lparr>b_electionId = e_id e, voterUid = uid u,
      voterEmail = (case email u of None \<Rightarrow> [] | Some m \<Rightarrow> m), selections = Some sels\<rparr>"
  let ?d' = "d\<lparr>results := AList.update (e_id e) ?t' (results d),
      votes := votes d @ [(voteKey (e_id e) (uid u), ?b)]\<rparr>"
  from pre inc have "voteTransaction e u sels d = Inr ?d'"
    by (simp add: voteTransaction_def update_absent_append)
  moreover have "map_of (results ?d') = (map_of (results d))(e_id e \<mapsto> ?t')"
    by (simp add: update_conv')
  moreover have "numberOf (totalVotes ?t') = numberOf (totalVotes t) + int (length sels)"
    by (simp add: incrementNumber_def numberOf_def)
  moreover have "tallyConsistent t \<longrightarrow> tallyConsistent ?t'"
    using total by (simp add: tallyConsistent_def incrementNumber_def numberOf_def)
  moreover have "?t'\<lparr>counts := counts t, totalVotes := totalVotes t\<rparr> = t"
    by simp
  ultimately show "\<exists>d' t'. voteTransaction e u sels d = Inr d' \<and>
         map_of (results d') = (map_of (results d))(e_id e \<mapsto> t') \<and>
         (\<forall>c. countOf (counts t') c = countOf (counts t) c + int (count_list sels c)) \<and>
         numberOf (totalVotes t') = numberOf (totalVotes t) + int (length sels) \<and>
         (tallyConsistent t \<longrightarrow> tallyConsistent t') \<and>
         t'\<lparr>counts := counts t, totalVotes := totalVotes t\<rparr> = t \<and>
         votes d' = votes d @ [(voteKey (e_id e) (uid u), ?b)] \<and>
         elections d' = elections d"
    using each by (intro exI [of _ ?d'] exI [of _ ?t']) simp
qed

section \<open>Validation before the transaction\<close>

text \<open>
  C5. A vote submission on an election whose \<open>isClosed\<close> flag is true, or with fewer than
  1 or more than \<open>maxSelections\<close> selections, is rejected with a validation error (or
  dropped silently when nobody is signed in) and leaves the store as it was, whatever the
  store holds and whether or not a transaction would have gone through: the transaction
  is never started. Both copies of \<open>submitVote\<close> behave so.
\<close>

theorem submitVote_rejects_before_transaction:
  assumes "isClosed e = Some True \<or> length sels < 1 \<or> int (length sels) > maxSelections e"
  shows "submitVote fails usr e sels d =
           (d, Some (case usr of
                       None \<Rightarrow> NotReady
                     | Some u \<Rightarrow> ValidationError
                         (if isClosed e = Some True then VotingClosed
                          else SelectionCountOutOfRange))) \<and>
         submitVoteDetails fails usr (Some e) sels d = submitVote fails usr e sels d"
  using assms by (auto simp: submitVote_def submitVoteDetails_def split: option.splits)

theorem submitVote_rejects_before_transaction_witness:
  "submitVote noFaults (Some voterA) scenarioElection [''Ava'', ''Noah'', ''Liam''] scenarioDb =
     (scenarioDb, Some (ValidationError SelectionCountOutOfRange)) \<and>
   submitVote noFaults (Some voterA) (scenarioElection\<lparr>isClosed := Some True\<rparr>) [''Ava'']
     scenarioDb = (scenarioDb, Some (ValidationError VotingClosed)) \<and>
   submitVote noFaults (Some voterA) scenarioElection [] scenarioDb =
     (scenarioDb, Some (ValidationError SelectionCountOutOfRange))"
proof -
  have three: "int (length [''Ava'', ''Noah'', ''Liam'']) > maxSelections scenarioElection"
    by (simp add: scenarioElection_def)
  have closed: "isClosed (scenarioElection\<lparr>isClosed := Some True\<rparr>) = Some True"
    by simp
  have none: "length ([] :: string list) < 1"
    by simp
  have "isClosed scenarioElection \<noteq> Some True"
    by (simp add: scenarioElection_def)
  then show ?thesis
    using submitVote_rejects_before_transaction [where e = scenarioElection
        and sels = "[''Ava'', ''Noah'', ''Liam'']" and fails = noFaults and usr = "Some voterA"
        and d = scenarioDb] three
      submitVote_rejects_before_transaction [where e = "scenarioElection\<lparr>isClosed := Some True\<rparr>"
        and sels = "[''Ava'']" and fails = noFaults and usr = "Some voterA" and d = scenarioDb]
        closed
      submitVote_rejects_before_transaction [where e = scenarioElection
        and sels = "[]" and fails = noFaults and usr = "Some voterA" and d = scenarioDb] none
    by simp
qed

text \<open>
  C10. The vote-submission path never looks at \<open>election.candidates\<close>: the outcome is the
  same whatever the candidate list is. So, on the scenario election (candidates Ava, Noah,
  Liam; at most 2 selections), a vote for the unknown name Zed is accepted and creates the
  entry Zed with count 1, and a vote naming Ava twice is accepted and adds 2 to Ava.
\<close>

theorem submitVote_ignores_candidates:
  "(\<forall>cands. submitVote fails usr (e\<lparr>candidates := cands\<rparr>) sels d = submitVote fails usr e sels d) \<and>
   ''Zed'' \<notin> set (candidates scenarioElection) \<and>
   submitVote noFaults (Some voterA) scenarioElection [''Zed''] scenarioDb =
     (scenarioDb\<lparr>results := [(''e1'', scenarioTally\<lparr>
          counts := Some [(''Ava'', Number 0), (''Noah'', Number 0), (''Liam'', Number 0),
            (''Zed'', Number 1)],
          totalVotes := Some 1\<rparr>)],
        votes := [(''e1_ua'', ballotOf voterA [''Zed''])]\<rparr>, None) \<and>
   submitVote noFaults (Some voterA) scenarioElection [''Ava'', ''Ava''] scenarioDb =
     (scenarioDb\<lparr>results := [(''e1'', scenarioTally\<lparr>
          counts := Some [(''Ava'', Number 2), (''Noah'', Number 0), (''Liam'', Number 0)],
          totalVotes := Some 2\<rparr>)],
        votes := [(''e1_ua'', ballotOf voterA [''Ava'', ''Ava''])]\<rparr>, None)"
proof -
  have "voteTransaction (e\<lparr>candidates := cands\<rparr>) u sels d = voteTransaction e u sels d"
    for cands u
    by (simp add: voteTransaction_def Let_def split: option.splits sum.splits)
  then have "submitVote fails usr (e\<lparr>candidates := cands\<rparr>) sels d = submitVote fails usr e sels d"
    for cands
    by (simp add: submitVote_def runTransaction_def split: option.splits)
  moreover have "''Zed'' \<notin> set (candidates scenarioElection)"
    by (simp add: scenarioElection_def)
  moreover have "submitVote noFaults (Some voterA) scenarioElection [''Zed''] scenarioDb =
     (scenarioDb\<lparr>results := [(''e1'', scenarioTally\<lparr>
          counts := Some [(''Ava'', Number 0), (''Noah'', Number 0), (''Liam'', Number 0),
            (''Zed'', Number 1)],
          totalVotes := Some 1\<rparr>)],
        votes := [(''e1_ua'', ballotOf voterA [''Zed''])]\<rparr>, None)"
    using fieldPath_examples
    by (simp add: submitVote_def runTransaction_def voteTransaction_def noFaults_def
        scenarioElection_def voterA_def scenarioDb_def scenarioTally_def ballotOf_def
        voteKey_def incrementCount_def countsOf_def incrementNumber_def numberOf_def)
  moreover have "submitVote noFaults (Some voterA) scenarioElection [''Ava'', ''Ava''] scenarioDb =
     (scenarioDb\<lparr>results := [(''e1'', scenarioTally\<lparr>
          counts := Some [(''Ava'', Number 2), (''Noah'', Number 0), (''Liam'', Number 0)],
          totalVotes := Some 2\<rparr>)],
        votes := [(''e1_ua'', ballotOf voterA [''Ava'', ''Ava''])]\<rparr>, None)"
    using fieldPath_examples
    by (simp add: submitVote_def runTransaction_def voteTransaction_def noFaults_def
        scenarioElection_def voterA_def scenarioDb_def scenarioTally_def ballotOf_def
        voteKey_def incrementCount_def countsOf_def incrementNumber_def numberOf_def)
  ultimately show ?thesis
    by blast
qed

section \<open>Normalized lists\<close>

lemma set_setFromList: "set (setFromList xs) = set xs"
proof -
  have "set (fold (\<lambda>x acc. if x \<in> set acc then acc else acc @ [x]) xs acc) = set xs \<union> set acc"
    for acc :: "'a list"
    by (induction xs arbitrary: acc) auto
  then show ?thesis
    by (simp add: setFromList_def)
qed

lemma distinct_setFromList: "distinct (setFromList xs)"
proof -
  have "distinct acc \<Longrightarrow> distinct (fold (\<lambda>x acc. if x \<in> set acc then acc else acc @ [x]) xs acc)"
    for acc :: "'a list"
    by (induction xs arbitrary: acc) auto
  then show ?thesis
    by (simp add: setFromList_def)
qed

lemma strip_right_keeps_left:
  assumes "dropWhile P xs = xs"
  shows "dropWhile P (rev (dropWhile P (rev xs))) = rev (dropWhile P (rev xs))"
proof (cases "rev (dropWhile P (rev xs))")
  case Nil
  show ?thesis
    unfolding Nil by simp
next
  case (Cons y ys)
  have "xs = rev (dropWhile P (rev xs)) @ rev (takeWhile P (rev xs))"
    by (metis rev_append rev_rev_ident takeWhile_dropWhile_id)
  with Cons have "xs = y # ys @ rev (takeWhile P (rev xs))"
    by simp
  then have "xs \<noteq> []" and "hd xs = y"
    by (metis list.distinct(1), metis list.sel(1))
  with assms have "\<not> P y"
    by (auto simp: dropWhile_eq_self_iff)
  then show ?thesis
    unfolding Cons by simp
qed

lemma trim_idem: "trim (trim s) = trim s"
proof -
  have "dropWhile isSpace (rev (dropWhile isSpace (rev (dropWhile isSpace s)))) =
      rev (dropWhile isSpace (rev (dropWhile isSpace s)))"
    by (rule strip_right_keeps_left) simp
  then show ?thesis
    by (simp add: trim_def)
qed

lemma isSpace_lowerChar: "isSpace (lowerChar c) = isSpace c"
  by (auto simp: lowerChar_def isSpace_def split: option.splits if_splits)

lemma lowerChar_idem: "lowerChar (lowerChar c) = lowerChar c"
  by (auto simp: lowerChar_def split: option.splits if_splits)

lemma trim_toLowerCase: "trim (toLowerCase s) = toLowerCase (trim s)"
proof -
  have "isSpace \<circ> lowerChar = isSpace"
    by (simp add: fun_eq_iff isSpace_lowerChar)
  then show ?thesis
    by (simp add: trim_def toLowerCase_def dropWhile_map rev_map)
qed

text \<open>
  Every stored candidate is a trimmed, non-empty name and no name is stored twice.
  Every stored eligible e-mail is trimmed, non-empty and lower-cased.
\<close>

lemma stored_lists_normalized:
  "distinct (map trim (uniqueList items)) \<and>
   (\<forall>c \<in> set (map trim (uniqueList items)). trim c = c \<and> c \<noteq> []) \<and>
   (\<forall>m \<in> set (map normalizeEmail (uniqueList items)).
      trim m = m \<and> toLowerCase m = m \<and> m \<noteq> [])"
proof -
  have trimmed: "trim x = x \<and> x \<noteq> []" if "x \<in> set (uniqueList items)" for x
    using that by (auto simp: uniqueList_def set_setFromList trim_idem)
  then have same: "map trim (uniqueList items) = uniqueList items"
    by (simp add: map_idI)
  have "distinct (uniqueList items)"
    by (simp add: uniqueList_def distinct_setFromList)
  moreover have "trim (normalizeEmail x) = normalizeEmail x \<and>
      toLowerCase (normalizeEmail x) = normalizeEmail x \<and> normalizeEmail x \<noteq> []"
    if "x \<in> set (uniqueList items)" for x
    using trimmed [OF that]
    by (simp add: normalizeEmail_def trim_toLowerCase trim_idem)
      (simp add: toLowerCase_def lowerChar_idem)
  ultimately show ?thesis
    using trimmed same by auto
qed

section \<open>Election creation\<close>

text \<open>
  C8. When election creation succeeds, the trimmed and deduplicated candidate list has at
  least 2 entries, \<open>maxSelections\<close> lies between 1 and the number of candidates, and the
  normalized eligible-email list is not empty; the election and the tally written hold
  that candidate list. When one of the three conditions fails, creation ends with a
  validation error (silently when nobody is signed in) and the store is unchanged: no
  election and no tally is written.
\<close>

theorem create_election_validation:
  "(handleCreateElection fails newId usr titleInput maxSel candidatesInput eligibleInput d =
      (d', None) \<longrightarrow>
      2 \<le> length (map trim (uniqueList (splitLines candidatesInput))) \<and>
      1 \<le> maxSel \<and> maxSel \<le> int (length (map trim (uniqueList (splitLines candidatesInput)))) \<and>
      map normalizeEmail (uniqueList (splitLines eligibleInput)) \<noteq> [] \<and>
      (\<exists>el t. map_of (elections d') newId = Some el \<and> map_of (results d') newId = Some t \<and>
         candidates el = map trim (uniqueList (splitLines candidatesInput)) \<and>
         t_candidates t = candidates el \<and> maxSelections el = maxSel \<and>
         eligibleEmails el = map normalizeEmail (uniqueList (splitLines eligibleInput)))) \<and>
   (\<not> (2 \<le> length (map trim (uniqueList (splitLines candidatesInput))) \<and>
       1 \<le> maxSel \<and> maxSel \<le> int (length (map trim (uniqueList (splitLines candidatesInput)))) \<and>
       map normalizeEmail (uniqueList (splitLines eligibleInput)) \<noteq> []) \<longrightarrow>
      (\<exists>v. handleCreateElection fails newId usr titleInput maxSel candidatesInput eligibleInput d =
         (d, Some (case usr of None \<Rightarrow> NotReady | Some u \<Rightarrow> ValidationError v))))"
  by (auto simp: handleCreateElection_def Let_def update_conv' split: option.splits if_splits)

theorem create_election_validation_witness:
  "handleCreateElection noFaults ''e1'' (Some organizer) '' Lead '' 2
     ''Ava\<newline>Noah\<newline> Liam\<newline>Ava\<newline>'' ''a@x.com\<newline>b@x.com'' emptyDb = (scenarioDb, None) \<and>
   2 \<le> length (map trim (uniqueList (splitLines ''Ava\<newline>Noah\<newline> Liam\<newline>Ava\<newline>''))) \<and>
   (\<exists>v. handleCreateElection noFaults ''e1'' (Some organizer) ''Lead'' 1
      ''Ava\<newline> Ava \<newline>\<newline>'' ''a@x.com'' emptyDb = (emptyDb, Some (ValidationError v))) \<and>
   (\<exists>v. handleCreateElection noFaults ''e1'' (Some organizer) ''Lead'' 3
      ''Ava\<newline>Noah'' ''a@x.com'' emptyDb = (emptyDb, Some (ValidationError v))) \<and>
   (\<exists>v. handleCreateElection noFaults ''e1'' (Some organizer) ''Lead'' 1
      ''Ava\<newline>Noah'' '' \<newline>'' emptyDb = (emptyDb, Some (ValidationError v)))"
proof -
  have one: "\<not> 2 \<le> length (map trim (uniqueList (splitLines ''Ava\<newline> Ava \<newline>\<newline>'')))"
    by (simp add: uniqueList_def setFromList_def trim_def isSpace_def)
  have two: "\<not> (3::int) \<le> int (length (map trim (uniqueList (splitLines ''Ava\<newline>Noah''))))"
    by (simp add: uniqueList_def setFromList_def trim_def isSpace_def)
  have three: "\<not> map normalizeEmail (uniqueList (splitLines '' \<newline>'')) \<noteq> []"
    by (simp add: uniqueList_def setFromList_def trim_def isSpace_def)
  show ?thesis
    using scenario_created
      create_election_validation [where fails = noFaults and newId = "''e1''"
        and usr = "Some organizer" and titleInput = "'' Lead ''" and maxSel = 2
        and candidatesInput = "''Ava\<newline>Noah\<newline> Liam\<newline>Ava\<newline>''" and eligibleInput = "''a@x.com\<newline>b@x.com''"
        and d = emptyDb and d' = scenarioDb]
      create_election_validation [where fails = noFaults and newId = "''e1''"
        and usr = "Some organizer" and titleInput = "''Lead''" and maxSel = 1
        and candidatesInput = "''Ava\<newline> Ava \<newline>\<newline>''" and eligibleInput = "''a@x.com''"
        and d = emptyDb] one
      create_election_validation [where fails = noFaults and newId = "''e1''"
        and usr = "Some organizer" and titleInput = "''Lead''" and maxSel = 3
        and candidatesInput = "''Ava\<newline>Noah''" and eligibleInput = "''a@x.com''"
        and d = emptyDb] two
      create_election_validation [where fails = noFaults and newId = "''e1''"
        and usr = "Some organizer" and titleInput = "''Lead''" and maxSel = 1
        and candidatesInput = "''Ava\<newline>Noah''" and eligibleInput = "'' \<newline>''"
        and d = emptyDb] three
    by simp
qed

text \<open>
  C4 at the input \<open>A@x.com\<close>, \<open>a@x.com\<close>: \<open>uniqueList\<close> removes duplicates before
  \<open>normalizeEmail\<close> lower-cases the entries, so two entries that differ only in case are
  both stored, as the same normalized address.
\<close>

theorem eligible_emails_case_variants_stored_twice:
  "map normalizeEmail (uniqueList (splitLines ''A@x.com\<newline>a@x.com'')) = [''a@x.com'', ''a@x.com''] \<and>
   snd (handleCreateElection noFaults ''e1'' (Some organizer) ''Lead'' 2 ''Ava\<newline>Noah''
          ''A@x.com\<newline>a@x.com'' emptyDb) = None \<and>
   map_of (elections (fst (handleCreateElection noFaults ''e1'' (Some organizer) ''Lead'' 2
          ''Ava\<newline>Noah'' ''A@x.com\<newline>a@x.com'' emptyDb))) ''e1'' =
     Some (scenarioElection\<lparr>candidates := [''Ava'', ''Noah''],
             eligibleEmails := [''a@x.com'', ''a@x.com'']\<rparr>)"
  by (simp add: handleCreateElection_def noFaults_def organizer_def emptyDb_def
      scenarioElection_def uniqueList_def setFromList_def trim_def isSpace_def
      normalizeEmail_def toLowerCase_def lowerChar_def zeroCounts_def Let_def)

section \<open>The public results page\<close>



section \<open>Recount and publish\<close>

lemma closeAndPublish_outcomes:
  assumes "closeAndPublish fails (Some e) d = (d', r)"
  shows "(d' = d \<and> r = Some StoreUnavailable) \<or>
         (\<exists>doc. map_of (elections d) (e_id e) = Some doc \<and> \<not> fails UpdateElection \<and>
            fails MergeTally \<and> r = Some StoreUnavailable \<and>
            d' = d\<lparr>elections := AList.update (e_id e)
                   (doc\<lparr>isClosed := Some True, resultsPublished := Some True\<rparr>) (elections d)\<rparr>) \<or>
         (\<exists>doc. map_of (elections d) (e_id e) = Some doc \<and> \<not> fails GetTally \<and>
            \<not> fails UpdateElection \<and> \<not> fails MergeTally \<and> r = None \<and>
            d' = d\<lparr>elections := AList.update (e_id e)
                     (doc\<lparr>isClosed := Some True, resultsPublished := Some True\<rparr>) (elections d),
                   results := AList.update (e_id e) (publishedTally e (finalCounts e d))
                     (results d)\<rparr>)"
  using assms
  by (auto simp: closeAndPublish_def Let_def split: if_splits option.splits)




lemma zeroCounts_nonempty: "cands \<noteq> [] \<Longrightarrow> zeroCounts cands \<noteq> []"
proof -
  have "acc \<noteq> [] \<Longrightarrow> fold (\<lambda>candidate acc. AList.update candidate (Number 0) acc) cs acc \<noteq> []"
    for cs :: "string list" and acc
    by (induction cs arbitrary: acc) auto
  then show "cands \<noteq> [] \<Longrightarrow> zeroCounts cands \<noteq> []"
    by (cases cands) (auto simp: zeroCounts_def)
qed

lemma length_countKnown: "length (countKnown c cs) = length cs"
  by (auto simp: countKnown_def length_update_present split: option.splits fieldValue.splits)

lemma length_fold_countKnown: "length (fold countKnown sels cs) = length cs"
  by (induction sels arbitrary: cs) (auto simp: length_countKnown)

lemma length_recountBallot: "length (fst (recountBallot b acc)) = length (fst acc)"
  by (simp add: recountBallot_def length_fold_countKnown split: option.splits)

lemma length_fold_recountBallot:
  "length (fst (fold recountBallot docs acc)) = length (fst acc)"
  by (induction docs arbitrary: acc) (auto simp: length_recountBallot)

lemma length_recount: "length (fst (recount cands docs)) = length (zeroCounts cands)"
  by (simp add: recount_def length_fold_recountBallot)

lemma trustedCounts_nonempty:
  "trustedCounts snap = Some trusted \<Longrightarrow> fst trusted \<noteq> []"
  by (auto simp: trustedCounts_def split: option.splits if_splits)

lemma finalCounts_nonempty:
  assumes "candidates e \<noteq> []"
  shows "fst (finalCounts e d) \<noteq> []"
proof (cases "trustedCounts (map_of (results d) (e_id e))")
  case None
  then have "length (fst (finalCounts e d)) = length (zeroCounts (candidates e))"
    by (simp add: finalCounts_def length_recount)
  with zeroCounts_nonempty [OF assms] show ?thesis
    by auto
next
  case (Some trusted)
  then show ?thesis
    by (simp add: finalCounts_def trustedCounts_nonempty)
qed

lemma finalCounts_published:
  assumes "e_id e' = e_id e" and "candidates e' = candidates e"
    and "votes d1 = votes d"
    and "map_of (results d1) (e_id e) = Some (publishedTally e (finalCounts e d))"
  shows "finalCounts e' d1 = finalCounts e d"
proof (cases "fst (finalCounts e d) = []")
  case True
  then have "trustedCounts (map_of (results d) (e_id e)) = None"
    using trustedCounts_nonempty [of "map_of (results d) (e_id e)"]
    by (cases "trustedCounts (map_of (results d) (e_id e))") (auto simp: finalCounts_def)
  then have "finalCounts e d = recount (candidates e) (queryVotes d (e_id e))"
    by (simp add: finalCounts_def)
  moreover have "trustedCounts (map_of (results d1) (e_id e')) = None"
    using True assms by (simp add: trustedCounts_def publishedTally_def)
  then have "finalCounts e' d1 = recount (candidates e') (queryVotes d1 (e_id e'))"
    by (simp add: finalCounts_def)
  ultimately show ?thesis
    using assms by (simp add: queryVotes_def)
next
  case False
  then show ?thesis
    using assms by (simp add: finalCounts_def trustedCounts_def publishedTally_def numberOf_def)
qed

text \<open>
  C7. After a run of \<open>closeAndPublish\<close> that succeeded, a second run on the same election
  (whatever the client's copy of the two flags is) that meets no failure succeeds and
  leaves the whole store, so \<open>counts\<close> and \<open>totalVotes\<close>, as the first run left it; a
  second run that fails leaves the tally unchanged as well. When the election has a
  candidate, the counts map the first run wrote is not empty, so the second run takes
  the fast path and writes back what it read.
\<close>

theorem closeAndPublish_idempotent:
  assumes "closeAndPublish fails (Some e) d = (d1, None)"
  shows "closeAndPublish noFaults (Some (e\<lparr>isClosed := c, resultsPublished := p\<rparr>)) d1 = (d1, None) \<and>
         (\<forall>fails2. results (fst (closeAndPublish fails2
                      (Some (e\<lparr>isClosed := c, resultsPublished := p\<rparr>)) d1)) = results d1) \<and>
         (candidates e \<noteq> [] \<longrightarrow>
            (\<exists>t cs. map_of (results d1) (e_id e) = Some t \<and> counts t = Some cs \<and> cs \<noteq> [] \<and>
               trustedCounts (Some t) = Some (cs, numberOf (totalVotes t)) \<and>
               finalCounts (e\<lparr>isClosed := c, resultsPublished := p\<rparr>) d1 = (cs, numberOf (totalVotes t))))"
proof -
  let ?e' = "e\<lparr>isClosed := c, resultsPublished := p\<rparr>"
  let ?T = "publishedTally e (finalCounts e d)"
  from closeAndPublish_outcomes [OF assms]
  obtain doc where doc: "map_of (elections d) (e_id e) = Some doc"
    and d1: "d1 = d\<lparr>elections := AList.update (e_id e)
                     (doc\<lparr>isClosed := Some True, resultsPublished := Some True\<rparr>) (elections d),
                   results := AList.update (e_id e) ?T (results d)\<rparr>"
    by auto
  have tally: "map_of (results d1) (e_id e) = Some ?T"
    by (simp add: d1 update_conv')
  have "votes d1 = votes d"
    by (simp add: d1)
  with tally have same: "finalCounts ?e' d1 = finalCounts e d"
    by (intro finalCounts_published) simp_all
  have T': "publishedTally ?e' (finalCounts e d) = ?T"
    by (simp add: publishedTally_def)
  have el: "map_of (elections d1) (e_id e) =
      Some (doc\<lparr>isClosed := Some True, resultsPublished := Some True\<rparr>)"
    by (simp add: d1 update_conv')
  have again: "closeAndPublish noFaults (Some ?e') d1 = (d1, None)"
    using tally el same T'
    by (simp add: closeAndPublish_def noFaults_def update_triv)
  have "results (fst (closeAndPublish fails2 (Some ?e') d1)) = results d1" for fails2
  proof -
    obtain d2 r where run: "closeAndPublish fails2 (Some ?e') d1 = (d2, r)"
      by (cases "closeAndPublish fails2 (Some ?e') d1")
    from closeAndPublish_outcomes [OF run] tally same T' have "results d2 = results d1"
      by (auto simp: update_triv)
    with run show ?thesis
      by simp
  qed
  moreover have "candidates e \<noteq> [] \<longrightarrow>
      (\<exists>t cs. map_of (results d1) (e_id e) = Some t \<and> counts t = Some cs \<and> cs \<noteq> [] \<and>
         trustedCounts (Some t) = Some (cs, numberOf (totalVotes t)) \<and>
         finalCounts ?e' d1 = (cs, numberOf (totalVotes t)))"
    using tally same finalCounts_nonempty [of e d]
    by (auto simp: publishedTally_def trustedCounts_def numberOf_def)
  ultimately show ?thesis
    using again by blast
qed

theorem closeAndPublish_idempotent_witness:
  "closeAndPublish noFaults (Some scenarioElection) scenarioDb =
     (scenarioDb\<lparr>elections :=
        [(''e1'', scenarioElection\<lparr>isClosed := Some True, resultsPublished := Some True\<rparr>)],
        results := [(''e1'', scenarioTally\<lparr>isPublished := Some True, t_isClosed := Some True\<rparr>)]\<rparr>,
      None) \<and>
   closeAndPublish noFaults
     (Some (scenarioElection\<lparr>isClosed := Some True, resultsPublished := Some True\<rparr>))
     (scenarioDb\<lparr>elections :=
        [(''e1'', scenarioElection\<lparr>isClosed := Some True, resultsPublished := Some True\<rparr>)],
        results := [(''e1'', scenarioTally\<lparr>isPublished := Some True, t_isClosed := Some True\<rparr>)]\<rparr>) =
     (scenarioDb\<lparr>elections :=
        [(''e1'', scenarioElection\<lparr>isClosed := Some True, resultsPublished := Some True\<rparr>)],
        results := [(''e1'', scenarioTally\<lparr>isPublished := Some True, t_isClosed := Some True\<rparr>)]\<rparr>,
      None)"
proof -
  have first: "closeAndPublish noFaults (Some scenarioElection) scenarioDb =
     (scenarioDb\<lparr>elections :=
        [(''e1'', scenarioElection\<lparr>isClosed := Some True, resultsPublished := Some True\<rparr>)],
        results := [(''e1'', scenarioTally\<lparr>isPublished := Some True, t_isClosed := Some True\<rparr>)]\<rparr>,
      None)"
    by (simp add: closeAndPublish_def noFaults_def scenarioDb_def scenarioElection_def
        scenarioTally_def trustedCounts_def finalCounts_def publishedTally_def numberOf_def)
  from closeAndPublish_idempotent [OF first, of "Some True" "Some True"] first
  show ?thesis
    by simp
qed

section \<open>Recount against the running tally, for names without a dot\<close>

lemma countKnown_Nil: "countKnown c [] = []"
  by (simp add: countKnown_def)

lemma countKnown_Cons:
  "countKnown c (p # cs) =
     (if fst p = c
      then (case snd p of Number v \<Rightarrow> (c, Number (v + 1)) # cs | MapValue nested \<Rightarrow> p # cs)
      else p # countKnown c cs)"
  by (cases p) (auto simp: countKnown_def split: option.splits fieldValue.splits)

lemma keys_countKnown: "map fst (countKnown c cs) = map fst cs"
  by (induction cs) (auto simp: countKnown_Nil countKnown_Cons split: fieldValue.splits)

lemma keys_fold_countKnown: "map fst (fold countKnown sels cs) = map fst cs"
  by (induction sels arbitrary: cs) (auto simp: keys_countKnown)

lemma numbers_countKnown:
  "\<forall>p \<in> set cs. \<exists>v. snd p = Number v \<Longrightarrow> \<forall>p \<in> set (countKnown c cs). \<exists>v. snd p = Number v"
  by (induction cs) (auto simp: countKnown_Nil countKnown_Cons split: fieldValue.splits)

lemma numbers_fold_countKnown:
  "\<forall>p \<in> set cs. \<exists>v. snd p = Number v \<Longrightarrow>
   \<forall>p \<in> set (fold countKnown sels cs). \<exists>v. snd p = Number v"
proof (induction sels arbitrary: cs)
  case Nil
  then show ?case by simp
next
  case (Cons c sels)
  from numbers_countKnown [OF Cons.prems, of c] Cons.IH show ?case
    by simp
qed

lemma keys_zeroCounts: "set (map fst (zeroCounts cands)) = set cands"
proof -
  have "set (map fst (fold (\<lambda>candidate acc. AList.update candidate (Number 0) acc) cs acc)) =
      set cs \<union> set (map fst acc)" for cs :: "string list" and acc
    by (induction cs arbitrary: acc) (auto simp: dom_update)
  then show ?thesis
    by (simp add: zeroCounts_def)
qed

lemma numbers_zeroCounts: "\<forall>p \<in> set (zeroCounts cands). \<exists>v. snd p = Number v"
proof -
  have step: "\<forall>p \<in> set (AList.update c (Number 0) acc). \<exists>v. snd p = Number v"
    if "\<forall>p \<in> set acc. \<exists>v. snd p = Number v" for c :: string and acc
    using that by (induction acc) auto
  have "\<forall>p \<in> set (fold (\<lambda>candidate acc. AList.update candidate (Number 0) acc) cs acc).
      \<exists>v. snd p = Number v"
    if "\<forall>p \<in> set acc. \<exists>v. snd p = Number v" for cs :: "string list" and acc
    using that
  proof (induction cs arbitrary: acc)
    case Nil
    then show ?case by simp
  next
    case (Cons c cs)
    from step [OF Cons.prems, of c]
    have "\<forall>p \<in> set (AList.update c (Number 0) acc). \<exists>v. snd p = Number v" .
    from Cons.IH [OF this] show ?case
      by simp
  qed
  from this [of "[]" cands] show ?thesis
    by (simp add: zeroCounts_def)
qed

lemma sumCounts_zeroCounts: "sumCounts (zeroCounts cands) = 0"
proof -
  have step: "\<forall>p \<in> set (AList.update c (Number 0) acc). numberValue (snd p) = 0"
    if "\<forall>p \<in> set acc. numberValue (snd p) = 0" for c :: string and acc
    using that by (induction acc) auto
  have "\<forall>p \<in> set (fold (\<lambda>candidate acc. AList.update candidate (Number 0) acc) cs acc).
      numberValue (snd p) = 0"
    if "\<forall>p \<in> set acc. numberValue (snd p) = 0" for cs :: "string list" and acc
    using that
  proof (induction cs arbitrary: acc)
    case Nil
    then show ?case by simp
  next
    case (Cons c cs)
    from step [OF Cons.prems, of c]
    have "\<forall>p \<in> set (AList.update c (Number 0) acc). numberValue (snd p) = 0" .
    from Cons.IH [OF this] show ?case
      by simp
  qed
  from this [of "[]" cands]
  have "\<forall>p \<in> set (zeroCounts cands). numberValue (snd p) = 0"
    by (simp add: zeroCounts_def)
  then show ?thesis
    unfolding sumCounts_def by (rule sum_list_all_zero)
qed

lemma keys_recountBallot: "map fst (fst (recountBallot b acc)) = map fst (fst acc)"
  by (simp add: recountBallot_def keys_fold_countKnown split: option.splits)

lemma numbers_recountBallot:
  "\<forall>p \<in> set (fst acc). \<exists>v. snd p = Number v \<Longrightarrow>
   \<forall>p \<in> set (fst (recountBallot b acc)). \<exists>v. snd p = Number v"
  by (simp add: recountBallot_def numbers_fold_countKnown split: option.splits)

lemma keys_recount: "map fst (fst (recount cands docs)) = map fst (zeroCounts cands)"
proof -
  have "map fst (fst (fold recountBallot ds acc)) = map fst (fst acc)" for ds acc
    by (induction ds arbitrary: acc) (auto simp: keys_recountBallot)
  then show ?thesis
    by (simp add: recount_def)
qed

lemma numbers_recount: "\<forall>p \<in> set (fst (recount cands docs)). \<exists>v. snd p = Number v"
proof -
  have "\<forall>p \<in> set (fst (fold recountBallot ds acc)). \<exists>v. snd p = Number v"
    if "\<forall>p \<in> set (fst acc). \<exists>v. snd p = Number v" for ds acc
    using that
  proof (induction ds arbitrary: acc)
    case Nil
    then show ?case by simp
  next
    case (Cons b ds)
    from Cons.IH [OF numbers_recountBallot [OF Cons.prems, of b]] show ?case
      by simp
  qed
  from this [of "(zeroCounts cands, 0)" docs] numbers_zeroCounts [of cands] show ?thesis
    by (simp add: recount_def)
qed

lemma countKnown_commute:
  "countKnown a (countKnown b cs) = countKnown b (countKnown a cs)"
proof (cases "a = b")
  case True
  then show ?thesis by simp
next
  case False
  show ?thesis
  proof (induction cs)
    case Nil
    show ?case by (simp add: countKnown_Nil)
  next
    case (Cons p cs)
    show ?case
    proof (cases "snd p")
      case (Number v)
      with False Cons show ?thesis
        by (simp add: countKnown_Cons)
    next
      case (MapValue nested)
      with False Cons show ?thesis
        by (simp add: countKnown_Cons)
    qed
  qed
qed

lemma fold_countKnown_commute:
  "fold countKnown xs (fold countKnown ys cs) = fold countKnown ys (fold countKnown xs cs)"
proof -
  have "fold countKnown (ys @ xs) = fold countKnown (xs @ ys)"
    by (rule fold_multiset_equiv) (auto simp: fun_eq_iff countKnown_commute)
  then show ?thesis
    by (simp add: fun_eq_iff)
qed

lemma recountBallot_commute:
  "recountBallot a (recountBallot b acc) = recountBallot b (recountBallot a acc)"
  by (auto simp: recountBallot_def fold_countKnown_commute split: option.splits)

lemma recount_mset:
  assumes "mset docs = mset docs'"
  shows "recount cands docs = recount cands docs'"
proof -
  have "fold recountBallot docs = fold recountBallot docs'"
    by (rule fold_multiset_equiv) (auto simp: fun_eq_iff recountBallot_commute assms)
  then show ?thesis
    by (simp add: recount_def)
qed

lemma recount_snoc: "recount cands (docs @ [b]) = recountBallot b (recount cands docs)"
  by (simp add: recount_def)

lemma incrementAt_known:
  assumes "c \<in> set (map fst cs)" and "\<forall>p \<in> set cs. \<exists>v. snd p = Number v"
  shows "incrementAt [c] cs = countKnown c cs"
proof -
  from assms(1) obtain w where w: "map_of cs c = Some w"
    by (cases "map_of cs c") (auto simp: map_of_eq_None_iff)
  then have "(c, w) \<in> set cs"
    by (rule map_of_SomeD)
  with assms(2) obtain v where "w = Number v"
    by fastforce
  with w show ?thesis
    by (simp add: countKnown_def)
qed

lemma countsOf_Some: "countsOf (Some cs) = cs"
  by (simp add: countsOf_def)

lemma incrementCounts_known:
  assumes "\<forall>c \<in> set sels. plainName c"
    and "set sels \<subseteq> set (map fst (countsOf co))"
    and "\<forall>p \<in> set (countsOf co). \<exists>v. snd p = Number v"
  shows "\<exists>co'. incrementCounts sels co = Inr co' \<and>
           countsOf co' = fold countKnown sels (countsOf co)"
  using assms
proof (induction sels arbitrary: co)
  case Nil
  show ?case by simp
next
  case (Cons c sels)
  let ?next = "countKnown c (countsOf co)"
  from Cons.prems(2) have "c \<in> set (map fst (countsOf co))"
    by simp
  then have known: "incrementAt [c] (countsOf co) = ?next"
    using Cons.prems(3) by (rule incrementAt_known)
  from Cons.prems(1) have "plainName c"
    by simp
  from incrementCount_plain [OF this, of co] known
  have first: "incrementCount c co = Inr (Some ?next)"
    by (simp only:)
  from Cons.prems(1) have p1: "\<forall>c \<in> set sels. plainName c"
    by simp
  from Cons.prems(2) have p2: "set sels \<subseteq> set (map fst (countsOf (Some ?next)))"
    by (simp add: countsOf_Some keys_countKnown)
  from numbers_countKnown [OF Cons.prems(3), of c]
  have p3: "\<forall>p \<in> set (countsOf (Some ?next)). \<exists>v. snd p = Number v"
    by (simp only: countsOf_Some)
  from Cons.IH [OF p1 p2 p3] obtain co'
    where rest: "incrementCounts sels (Some ?next) = Inr co'"
      and folded: "countsOf co' = fold countKnown sels (countsOf (Some ?next))"
    by blast
  have "incrementCounts (c # sels) co = Inr co'"
    by (simp only: incrementCounts.simps first rest sum.case)
  moreover have "countsOf co' = fold countKnown (c # sels) (countsOf co)"
    using folded by (simp add: countsOf_Some)
  ultimately show ?case
    by blast
qed

lemma handleCreateElection_success:
  assumes "handleCreateElection fails newId usr titleInput maxSel candidatesInput eligibleInput d =
      (d', None)"
  shows "\<exists>t el. results d' = AList.update newId t (results d) \<and>
           counts t = Some (zeroCounts (map trim (uniqueList (splitLines candidatesInput)))) \<and>
           totalVotes t = Some 0 \<and> votes d' = votes d \<and>
           elections d' = AList.update newId el (elections d) \<and>
           candidates el = map trim (uniqueList (splitLines candidatesInput)) \<and>
           2 \<le> length (candidates el)"
proof (cases usr)
  case None
  with assms show ?thesis
    by (simp add: handleCreateElection_def)
next
  case (Some u)
  let ?cands = "map trim (uniqueList (splitLines candidatesInput))"
  let ?el = "\<lparr>e_id = newId, title = trim titleInput, createdByUid = uid u,
      createdByEmail = (case email u of None \<Rightarrow> [] | Some m \<Rightarrow> m),
      maxSelections = maxSel, candidates = ?cands,
      eligibleEmails = map normalizeEmail (uniqueList (splitLines eligibleInput)),
      isClosed = Some False, resultsPublished = Some False\<rparr>"
  let ?t = "\<lparr>t_electionId = newId, t_title = trim titleInput, t_candidates = ?cands,
      counts = Some (zeroCounts ?cands), totalVotes = Some 0, isPublished = Some False,
      t_isClosed = Some False, t_createdByUid = uid u\<rparr>"
  from assms Some have "2 \<le> length ?cands"
    and "d' = d\<lparr>elections := AList.update newId ?el (elections d),
                results := AList.update newId ?t (results d)\<rparr>"
    by (simp_all add: handleCreateElection_def Let_def split: if_splits)
  then have "results d' = AList.update newId ?t (results d) \<and>
      counts ?t = Some (zeroCounts ?cands) \<and> totalVotes ?t = Some 0 \<and> votes d' = votes d \<and>
      elections d' = AList.update newId ?el (elections d) \<and> candidates ?el = ?cands \<and>
      2 \<le> length (candidates ?el)"
    by simp
  then show ?thesis
    by blast
qed

lemma submitVote_success:
  assumes "submitVote fails usr e sels d = (d', None)"
  shows "\<exists>u. usr = Some u \<and> voteTransaction e u sels d = Inr d'"
  using assms
  by (auto simp: submitVote_def runTransaction_def split: option.splits if_splits sum.splits)

lemma voteTransaction_success:
  assumes "voteTransaction e u sels d = Inr d'"
  shows "\<exists>t co. map_of (votes d) (voteKey (e_id e) (uid u)) = None \<and>
           map_of (results d) (e_id e) = Some t \<and>
           incrementCounts sels (counts t) = Inr co \<and>
           d' = d\<lparr>results := AList.update (e_id e)
                    (t\<lparr>counts := co,
                       totalVotes := incrementNumber (int (length sels)) (totalVotes t)\<rparr>)
                    (results d),
                  votes := votes d @ [(voteKey (e_id e) (uid u),
                    \<lparr>b_electionId = e_id e, voterUid = uid u,
                     voterEmail = (case email u of None \<Rightarrow> [] | Some m \<Rightarrow> m),
                     selections = Some sels\<rparr>)]\<rparr>"
  using assms
  by (auto simp: voteTransaction_def Let_def update_absent_append split: option.splits sum.splits)

lemma queryVotes_snoc:
  "queryVotes (d\<lparr>results := r, votes := votes d @ [(k, b)]\<rparr>) i =
     queryVotes d i @ (if b_electionId b = i then [b] else [])"
  by (simp add: queryVotes_def)

lemma vote_keeps_recountAgrees:
  assumes vote: "submitVote fails usr e sels d = (d', None)"
    and agrees: "recountAgrees e d"
    and drawn: "set sels \<subseteq> set (candidates e)"
    and plain: "\<forall>c \<in> set sels. plainName c"
  shows "recountAgrees e d' \<and>
         map selections (queryVotes d' (e_id e)) =
           map selections (queryVotes d (e_id e)) @ [Some sels]"
proof -
  from submitVote_success [OF vote] obtain u where "voteTransaction e u sels d = Inr d'"
    by blast
  from voteTransaction_success [OF this] obtain t co
    where t: "map_of (results d) (e_id e) = Some t"
      and co: "incrementCounts sels (counts t) = Inr co"
      and d': "d' = d\<lparr>results := AList.update (e_id e)
                    (t\<lparr>counts := co,
                       totalVotes := incrementNumber (int (length sels)) (totalVotes t)\<rparr>)
                    (results d),
                  votes := votes d @ [(voteKey (e_id e) (uid u),
                    \<lparr>b_electionId = e_id e, voterUid = uid u,
                     voterEmail = (case email u of None \<Rightarrow> [] | Some m \<Rightarrow> m),
                     selections = Some sels\<rparr>)]\<rparr>"
    by blast
  let ?b = "\<lparr>b_electionId = e_id e, voterUid = uid u,
      voterEmail = (case email u of None \<Rightarrow> [] | Some m \<Rightarrow> m), selections = Some sels\<rparr>"
  from agrees t
  have before: "recount (candidates e) (queryVotes d (e_id e)) =
      (countsOf (counts t), numberOf (totalVotes t))"
    by (simp add: recountAgrees_def)
  have scan: "queryVotes d' (e_id e) = queryVotes d (e_id e) @ [?b]"
    by (simp add: d' queryVotes_snoc)
  have "map fst (countsOf (counts t)) = map fst (zeroCounts (candidates e))"
    using keys_recount [of "candidates e" "queryVotes d (e_id e)"] before by simp
  with drawn have keys: "set sels \<subseteq> set (map fst (countsOf (counts t)))"
    using keys_zeroCounts [of "candidates e"] by simp
  have numbers: "\<forall>p \<in> set (countsOf (counts t)). \<exists>v. snd p = Number v"
    using numbers_recount [of "candidates e" "queryVotes d (e_id e)"] before by simp
  from incrementCounts_known [OF plain keys numbers] co
  have running: "countsOf co = fold countKnown sels (countsOf (counts t))"
    by simp
  have "recount (candidates e) (queryVotes d' (e_id e)) =
      (fold countKnown sels (countsOf (counts t)), numberOf (totalVotes t) + int (length sels))"
    by (simp add: scan recount_snoc before recountBallot_def)
  moreover have "map_of (results d') (e_id e) =
      Some (t\<lparr>counts := co,
              totalVotes := incrementNumber (int (length sels)) (totalVotes t)\<rparr>)"
    by (simp add: d' update_conv')
  ultimately have "recountAgrees e d'"
    by (simp add: recountAgrees_def running incrementNumber_def numberOf_def)
  with scan show ?thesis
    by simp
qed

lemma castVotes_keeps_recountAgrees:
  assumes "castVotes fails e vs d = Some d'"
    and "recountAgrees e d"
    and "\<forall>v \<in> set vs. set (snd v) \<subseteq> set (candidates e) \<and> (\<forall>c \<in> set (snd v). plainName c)"
  shows "recountAgrees e d' \<and>
         map selections (queryVotes d' (e_id e)) =
           map selections (queryVotes d (e_id e)) @ map (\<lambda>v. Some (snd v)) vs"
  using assms
proof (induction vs arbitrary: d)
  case Nil
  then show ?case by simp
next
  case (Cons v vs)
  from Cons.prems(1) obtain d1
    where first: "submitVote fails (Some (fst v)) e (snd v) d = (d1, None)"
      and rest: "castVotes fails e vs d1 = Some d'"
    by (auto split: prod.splits option.splits)
  from Cons.prems(3) have "set (snd v) \<subseteq> set (candidates e)" and "\<forall>c \<in> set (snd v). plainName c"
    by simp_all
  from vote_keeps_recountAgrees [OF first Cons.prems(2) this]
  have step: "recountAgrees e d1"
    "map selections (queryVotes d1 (e_id e)) =
       map selections (queryVotes d (e_id e)) @ [Some (snd v)]"
    by simp_all
  from Cons.prems(3)
  have "\<forall>v \<in> set vs. set (snd v) \<subseteq> set (candidates e) \<and> (\<forall>c \<in> set (snd v). plainName c)"
    by simp
  from Cons.IH [OF rest step(1) this] step(2) show ?case
    by simp
qed

text \<open>
  The running tally and the recount agree when no selected name has a dot or a reserved
  character. Create an election, at an id that no stored ballot refers to, and let a
  sequence of vote
  submissions on it all succeed, with every selection a candidate of the election.
  Then the store holds exactly these ballots for the election, and recounting
  them, in any order, from zero counts gives exactly the \<open>counts\<close> map and
  \<open>totalVotes\<close> of the running tally.
\<close>

lemma recount_matches_running_tally_plain_names:
  assumes created: "handleCreateElection fails0 newId usr titleInput maxSel candidatesInput
                      eligibleInput d0 = (d1, None)"
    and fresh: "\<forall>b \<in> set (map snd (votes d0)). b_electionId b \<noteq> newId"
    and client: "e_id e = newId \<and> candidates e = map trim (uniqueList (splitLines candidatesInput))"
    and cast: "castVotes fails e vs d1 = Some d2"
    and drawn: "\<forall>v \<in> set vs. set (snd v) \<subseteq> set (candidates e) \<and> (\<forall>c \<in> set (snd v). plainName c)"
  shows "\<exists>t. map_of (results d2) (e_id e) = Some t \<and>
           (\<forall>docs. mset docs = mset (queryVotes d2 (e_id e)) \<longrightarrow>
              recount (candidates e) docs = (countsOf (counts t), numberOf (totalVotes t))) \<and>
           map selections (queryVotes d2 (e_id e)) = map (\<lambda>v. Some (snd v)) vs"
proof -
  from handleCreateElection_success [OF created]
  obtain t0 and el :: election where r1: "results d1 = AList.update newId t0 (results d0)"
    and c0: "counts t0 = Some (zeroCounts (map trim (uniqueList (splitLines candidatesInput))))"
    and n0: "totalVotes t0 = Some 0"
    and v1: "votes d1 = votes d0"
    by blast
  have scan1: "queryVotes d1 (e_id e) = []"
    using fresh client v1 by (auto simp: queryVotes_def filter_empty_conv)
  have "map_of (results d1) (e_id e) = Some t0"
    using r1 client by (simp add: update_conv')
  with scan1 c0 n0 client have "recountAgrees e d1"
    by (simp add: recountAgrees_def recount_def countsOf_def numberOf_def)
  from castVotes_keeps_recountAgrees [OF cast this drawn] scan1
  have agrees: "recountAgrees e d2"
    and stored: "map selections (queryVotes d2 (e_id e)) = map (\<lambda>v. Some (snd v)) vs"
    by simp_all
  from agrees obtain t where t: "map_of (results d2) (e_id e) = Some t"
    and same: "recount (candidates e) (queryVotes d2 (e_id e)) =
      (countsOf (counts t), numberOf (totalVotes t))"
    by (auto simp: recountAgrees_def split: option.splits)
  have "recount (candidates e) docs = (countsOf (counts t), numberOf (totalVotes t))"
    if "mset docs = mset (queryVotes d2 (e_id e))" for docs
    using recount_mset [OF that] same by simp
  with t stored show ?thesis
    by blast
qed

text \<open>
  The tally of a newly created election is consistent, and a successful vote whose
  selections have no dot and no reserved character keeps a consistent tally consistent.
\<close>

lemma tally_consistency_plain_names:
  "(handleCreateElection fails newId usr titleInput maxSel candidatesInput eligibleInput d =
      (d', None) \<longrightarrow>
      (\<exists>t. map_of (results d') newId = Some t \<and> tallyConsistent t)) \<and>
   (submitVote fails usr e sels d = (d', None) \<and> map_of (results d) (e_id e) = Some t \<and>
      tallyConsistent t \<and> (\<forall>c \<in> set sels. plainName c) \<longrightarrow>
      (\<exists>t'. map_of (results d') (e_id e) = Some t' \<and> tallyConsistent t'))"
proof (intro conjI impI)
  assume "handleCreateElection fails newId usr titleInput maxSel candidatesInput eligibleInput d =
      (d', None)"
  from handleCreateElection_success [OF this]
  obtain t0 where "results d' = AList.update newId t0 (results d)"
    and "counts t0 = Some (zeroCounts (map trim (uniqueList (splitLines candidatesInput))))"
    and "totalVotes t0 = Some 0"
    by blast
  then have "map_of (results d') newId = Some t0" and "tallyConsistent t0"
    by (simp_all add: update_conv' tallyConsistent_def numberOf_def countsOf_def
        sumCounts_zeroCounts)
  then show "\<exists>t. map_of (results d') newId = Some t \<and> tallyConsistent t"
    by blast
next
  assume a: "submitVote fails usr e sels d = (d', None) \<and> map_of (results d) (e_id e) = Some t \<and>
      tallyConsistent t \<and> (\<forall>c \<in> set sels. plainName c)"
  then have "submitVote fails usr e sels d = (d', None)"
    by simp
  from submitVote_success [OF this] obtain u where vote: "voteTransaction e u sels d = Inr d'"
    by blast
  from voteTransaction_success [OF vote] a
  have absent: "map_of (votes d) (voteKey (e_id e) (uid u)) = None"
    by auto
  from a have plain: "\<forall>c \<in> set sels. plainName c"
    by simp
  from vote_transaction_plain_names [OF plain, of d e u t] absent a vote
  obtain t' where "map_of (results d') = (map_of (results d))(e_id e \<mapsto> t')"
    and "tallyConsistent t'"
    by auto
  then show "\<exists>t'. map_of (results d') (e_id e) = Some t' \<and> tallyConsistent t'"
    by simp
qed

end
